theory Spec2Isabelle
  imports Main
begin

section \<open>Python values, dictionaries and errors\<close>

text \<open>
  The values that travel through \<^verbatim>\<open>b2cusers.py\<close> are decoded JSON documents and the
  Python dictionaries built from them. A dictionary is an association list in insertion
  order, as Python keeps it; its keys are pairwise distinct whenever it is built with
  \<open>dict_set\<close> from the empty list. Strings are byte strings; numbers are integers.
\<close>

datatype json =
    JNull
  | JBool bool
  | JInt int
  | JStr string
  | JArr "json list"
  | JObj "(string \<times> json) list"

datatype error =
    ValueError string
  | KeyError string
  | TypeError
  | AttributeError
  | Exception string
  | HTTPError string

type_synonym 'v dict = "(string \<times> 'v) list"

definition dict_keys :: "'v dict \<Rightarrow> string list" where
  "dict_keys d = map fst d"

definition dict_get :: "'v dict \<Rightarrow> string \<Rightarrow> 'v option" where
  "dict_get d k = map_of d k"

text \<open>\<^verbatim>\<open>d[k] = v\<close>: an existing key keeps its position, a new key goes to the end.\<close>

fun dict_set :: "'v dict \<Rightarrow> string \<Rightarrow> 'v \<Rightarrow> 'v dict" where
  "dict_set [] k v = [(k, v)]"
| "dict_set ((k', v') # d) k v =
     (if k' = k then (k', v) # d else (k', v') # dict_set d k v)"

text \<open>\<^verbatim>\<open>d.pop(k, default)\<close>, the dictionary it leaves behind.\<close>

definition dict_pop :: "'v dict \<Rightarrow> string \<Rightarrow> 'v dict" where
  "dict_pop d k = filter (\<lambda>(k', v). k' \<noteq> k) d"

text \<open>\<^verbatim>\<open>sep.join(xs)\<close>\<close>

fun join :: "string \<Rightarrow> string list \<Rightarrow> string" where
  "join sep [] = []"
| "join sep [x] = x"
| "join sep (x # y # ys) = x @ sep @ join sep (y # ys)"

text \<open>Iterating a decoded JSON value: a list gives its elements, a dictionary its keys,
  a string its characters; anything else is not iterable.\<close>

fun py_iter :: "json \<Rightarrow> error + json list" where
  "py_iter (JArr xs) = Inr xs"
| "py_iter (JObj kvs) = Inr (map (\<lambda>(k, v). JStr k) kvs)"
| "py_iter (JStr s) = Inr (map (\<lambda>c. JStr [c]) s)"
| "py_iter v = Inl TypeError"

text \<open>
  A value inside an f-string. Strings stand for themselves and \<^verbatim>\<open>None\<close> prints as
  \<^verbatim>\<open>None\<close>; how Python prints numbers and containers is the parameter \<open>repr\<close>.
\<close>

fun format_value :: "(json \<Rightarrow> string) \<Rightarrow> json \<Rightarrow> string" where
  "format_value repr (JStr s) = s"
| "format_value repr JNull = ''None''"
| "format_value repr (JBool b) = (if b then ''True'' else ''False'')"
| "format_value repr v = repr v"

section \<open>The HTTP connection\<close>

text \<open>
  A request is what the client hands to the connection. The \<^verbatim>\<open>$select\<close> parameter of
  \<^verbatim>\<open>list\<close> is the comma-join of a Python set, whose iteration order is not fixed, so the
  model keeps the set (\<open>PJoin\<close>).

  The server is any function from the requests issued so far and the current request to a
  decoded JSON object, or to the exception the HTTP layer raises. Each operation returns,
  beside its result, the requests it issued, in order.
\<close>

datatype param = PStr string | PInt int | PJoin "string set"

datatype request =
    Get string "(string \<times> param) list"
  | Post string json
  | Patch string json

type_synonym response = "json dict"

type_synonym server = "request list \<Rightarrow> request \<Rightarrow> error + response"

section \<open>The class \<^verbatim>\<open>User\<close>\<close>

definition base_user_attributes :: "string list" where
  "base_user_attributes =
     [''id'', ''givenName'', ''surname'', ''jobTitle'', ''mail'', ''creationType'',
      ''identities'', ''accountEnabled'']"

definition extended_user_attributes :: "string list" where
  "extended_user_attributes = [''id'', ''ageGroup'', ''createdDateTime'', ''userType'']"

definition unwanted_attributes :: "string list" where
  "unwanted_attributes =
     [''emails'', ''jobTitle'', ''legalAgeGroupClassification'', ''newUser'', ''ObjectId'']"

text \<open>
  One entry of the \<^verbatim>\<open>value\<close> list that \<^verbatim>\<open>/identity/userFlowAttributes\<close> returns;
  the three fields the constructor reads are strings.
\<close>

record extension =
  ext_id :: string
  displayName :: string
  userFlowAttributeType :: string

record user =
  tenant_name :: string
  api_url :: string
  userflow_user_attributes :: "string list"
  userflow_attribute_mapping :: "string dict"
  all_user_attributes :: "string list"

subsection \<open>\<^verbatim>\<open>__init__\<close>\<close>

text \<open>
  The body of the loop of lines 71 to 80. The state is the mapping of the instance and the
  class-level list \<^verbatim>\<open>custom_user_attributes\<close>, which \<^verbatim>\<open>append\<close> mutates in place.
  Python's \<^verbatim>\<open>str.lower()\<close>, which follows the Unicode case tables, is the parameter
  \<open>lower\<close>: what is proved of the constructor holds whatever that function is.
\<close>

fun add_extension ::
  "(string \<Rightarrow> string) \<Rightarrow> extension \<Rightarrow> string dict \<times> string list \<Rightarrow> string dict \<times> string list" where
  "add_extension lower e (mapping, custom_user_attributes) =
     (if userFlowAttributeType e = ''builtIn''
      then (dict_set mapping (ext_id e) (ext_id e), custom_user_attributes)
      else
        (let extension_displayname = lower (displayName e);
             extension_id = ext_id e
         in (dict_set mapping extension_displayname extension_id,
             custom_user_attributes @ [extension_id])))"

text \<open>
  The constructor, given the class-level list as it stands and the decoded \<^verbatim>\<open>value\<close>
  list of the one GET it issues. It returns the instance and the class-level list.
\<close>

definition init ::
  "(string \<Rightarrow> string) \<Rightarrow> string list \<Rightarrow> string \<Rightarrow> string \<Rightarrow> extension list \<Rightarrow> user \<times> string list" where
  "init lower custom_user_attributes tenant url extension_user_attributes =
     (let ids = map ext_id extension_user_attributes;
          (mapping, custom') =
             fold (add_extension lower) extension_user_attributes ([], custom_user_attributes)
      in (\<lparr> tenant_name = tenant, api_url = url,
             userflow_user_attributes = ids,
             userflow_attribute_mapping = mapping,
             all_user_attributes = base_user_attributes @ extended_user_attributes @ ids \<rparr>,
          custom'))"

subsection \<open>\<^verbatim>\<open>list\<close>\<close>

text \<open>The message of line 154.\<close>

definition unknown_attribute_message :: "string dict \<Rightarrow> string \<Rightarrow> string" where
  "unknown_attribute_message mapping include_attribute =
     include_attribute @ '' is not a known attribute. Only ''
       @ join '','' (dict_keys mapping) @ '' are allowed''"

text \<open>Lines 149 to 156: the attributes to select, or the \<^verbatim>\<open>ValueError\<close>.\<close>

fun attributes_to_fetch :: "string dict \<Rightarrow> string list \<Rightarrow> string set \<Rightarrow> error + string set" where
  "attributes_to_fetch mapping [] acc = Inr acc"
| "attributes_to_fetch mapping (include_attribute # rest) acc =
     (case dict_get mapping include_attribute of
        None \<Rightarrow>
          Inl (ValueError (unknown_attribute_message mapping include_attribute))
      | Some mapped \<Rightarrow> attributes_to_fetch mapping rest (insert mapped acc))"

text \<open>The filter \<^verbatim>\<open>creationType eq 'LocalAccount'\<close>.\<close>

definition local_account_filter :: string where
  "local_account_filter = ''creationType eq '' @ [CHR 0x27] @ ''LocalAccount'' @ [CHR 0x27]"

definition users_request :: "user \<Rightarrow> string set \<Rightarrow> int \<Rightarrow> request" where
  "users_request self needed_attributes n =
     Get (api_url self @ ''/users'')
       [(''$select'', PJoin needed_attributes),
        (''$top'', PInt n),
        (''$filter'', PStr local_account_filter)]"

text \<open>\<^verbatim>\<open>all_customers.extend(fetch_customers['value'])\<close>\<close>

definition extend_value :: "json list \<Rightarrow> response \<Rightarrow> error + json list" where
  "extend_value all_customers fetch_customers =
     (case dict_get fetch_customers ''value'' of
        None \<Rightarrow> Inl (KeyError ''value'')
      | Some v \<Rightarrow> (case py_iter v of Inl e \<Rightarrow> Inl e | Inr xs \<Rightarrow> Inr (all_customers @ xs)))"

text \<open>
  The \<^verbatim>\<open>while\<close> loop of lines 174 to 177. Nothing bounds the number of continuation
  links a server hands out, so the loop is a partial function: \<open>None\<close> is a run that
  never ends.
\<close>

partial_function (option) fetch_pages ::
  "server \<Rightarrow> response \<Rightarrow> json list \<Rightarrow> request list \<Rightarrow> ((error + json list) \<times> request list) option" where
  "fetch_pages srv fetch_customers all_customers log =
     (case dict_get fetch_customers ''@odata.nextLink'' of
        None \<Rightarrow> Some (Inr all_customers, log)
      | Some next_link \<Rightarrow>
          (case next_link of
             JStr url \<Rightarrow>
               (case srv log (Get url []) of
                  Inl e \<Rightarrow> Some (Inl e, log @ [Get url []])
                | Inr fetched \<Rightarrow>
                    (case extend_value all_customers fetched of
                       Inl e \<Rightarrow> Some (Inl e, log @ [Get url []])
                     | Inr all' \<Rightarrow> fetch_pages srv fetched all' (log @ [Get url []])))
           | _ \<Rightarrow> Some (Inl TypeError, log)))"

text \<open>\<^verbatim>\<open>{v:k for k,v in self.userflow_attribute_mapping.items()}\<close>\<close>

definition reversed_mapping :: "string dict \<Rightarrow> string dict" where
  "reversed_mapping mapping = fold (\<lambda>(k, v) d. dict_set d v k) mapping []"

text \<open>Lines 200 to 204, the loop over the items of one record.\<close>

fun remap_items :: "string list \<Rightarrow> string dict \<Rightarrow> json dict \<Rightarrow> json dict \<Rightarrow> error + json dict" where
  "remap_items custom reversed [] remapped_customer = Inr remapped_customer"
| "remap_items custom reversed ((attribute, v) # rest) remapped_customer =
     (if attribute \<in> set custom
      then (case dict_get reversed attribute of
              None \<Rightarrow> Inl (KeyError attribute)
            | Some name \<Rightarrow> remap_items custom reversed rest (dict_set remapped_customer name v))
      else remap_items custom reversed rest (dict_set remapped_customer attribute v))"

text \<open>Lines 198 to 204 for one element of \<^verbatim>\<open>all_customers\<close>: only a dictionary has
  \<^verbatim>\<open>items()\<close>.\<close>

fun remap_customer :: "string list \<Rightarrow> string dict \<Rightarrow> json \<Rightarrow> error + json dict" where
  "remap_customer custom reversed (JObj items) = remap_items custom reversed items []"
| "remap_customer custom reversed v = Inl AttributeError"

text \<open>Lines 196 to 206.\<close>

fun map_customers :: "string list \<Rightarrow> string dict \<Rightarrow> json list \<Rightarrow> json dict list \<Rightarrow> error + json dict list" where
  "map_customers custom reversed [] mapped_customers = Inr mapped_customers"
| "map_customers custom reversed (customer # rest) mapped_customers =
     (case remap_customer custom reversed customer of
        Inl e \<Rightarrow> Inl e
      | Inr remapped \<Rightarrow> map_customers custom reversed rest (mapped_customers @ [remapped]))"

text \<open>
  \<^verbatim>\<open>list\<close>, with the class-level list as the instance finds it. In the branch for
  \<^verbatim>\<open>max <= 999\<close> the decoded response itself becomes \<^verbatim>\<open>all_customers\<close>, so the loop
  that follows iterates over the keys of the response.
\<close>

definition list_users ::
  "user \<Rightarrow> string list \<Rightarrow> server \<Rightarrow> int \<Rightarrow> string list \<Rightarrow> ((error + json dict list) \<times> request list) option" where
  "list_users self custom srv mx include_attributes =
     (case attributes_to_fetch (userflow_attribute_mapping self) include_attributes
             (set base_user_attributes) of
        Inl e \<Rightarrow> Some (Inl e, [])
      | Inr needed_attributes \<Rightarrow>
          (let reversed = reversed_mapping (userflow_attribute_mapping self) in
           if mx = 0 then
             (let req = users_request self needed_attributes 999 in
              case srv [] req of
                Inl e \<Rightarrow> Some (Inl e, [req])
              | Inr fetch_customers \<Rightarrow>
                  (case extend_value [] fetch_customers of
                     Inl e \<Rightarrow> Some (Inl e, [req])
                   | Inr all_customers \<Rightarrow>
                       (case fetch_pages srv fetch_customers all_customers [req] of
                          None \<Rightarrow> None
                        | Some (Inl e, log) \<Rightarrow> Some (Inl e, log)
                        | Some (Inr all', log) \<Rightarrow>
                            Some (map_customers custom reversed all' [], log))))
           else if mx \<le> 999 then
             (let req = users_request self needed_attributes mx in
              case srv [] req of
                Inl e \<Rightarrow> Some (Inl e, [req])
              | Inr all_customers \<Rightarrow>
                  (case py_iter (JObj all_customers) of
                     Inl e \<Rightarrow> Some (Inl e, [req])
                   | Inr customers \<Rightarrow> Some (map_customers custom reversed customers [], [req])))
           else Some (Inl (Exception ''max value should be between 0 and 999''), [])))"

subsection \<open>\<^verbatim>\<open>profile\<close>\<close>

text \<open>Lines 261 to 268.\<close>

definition full_mapping :: "string dict \<Rightarrow> response \<Rightarrow> json dict" where
  "full_mapping mapping graph_user_profile =
     fold (\<lambda>(attribute, mapped_attribute) user_profile.
             dict_set user_profile attribute
               (case dict_get graph_user_profile mapped_attribute of
                  Some v \<Rightarrow> v
                | None \<Rightarrow> JNull))
          mapping []"

text \<open>Lines 240 to 245: the request of \<^verbatim>\<open>profile\<close>.\<close>

definition profile_request :: "user \<Rightarrow> string \<Rightarrow> string list option \<Rightarrow> request" where
  "profile_request self userid user_attributes =
     (let attrs = (case user_attributes of None \<Rightarrow> all_user_attributes self | Some a \<Rightarrow> a)
      in Get (api_url self @ ''/users/'' @ userid @ ''?$select='' @ join '','' attrs) [])"

definition profile ::
  "user \<Rightarrow> server \<Rightarrow> string \<Rightarrow> string list option \<Rightarrow> (error + json dict) \<times> request list" where
  "profile self srv userid user_attributes =
     (let req = profile_request self userid user_attributes
      in case srv [] req of
           Inl e \<Rightarrow> (Inl e, [req])
         | Inr graph_user_profile \<Rightarrow>
             (Inr (fold (\<lambda>attribute user_profile. dict_pop user_profile attribute)
                     unwanted_attributes
                     (full_mapping (userflow_attribute_mapping self) graph_user_profile)),
              [req]))"

subsection \<open>\<^verbatim>\<open>create\<close> and \<^verbatim>\<open>update\<close>\<close>

text \<open>Lines 310 to 312 and 359 to 361: the fields of the input that the mapping knows.\<close>

definition map_known_fields :: "string dict \<Rightarrow> json dict \<Rightarrow> json dict" where
  "map_known_fields mapping usr =
     fold (\<lambda>(attribute, mapped_attribute) mapped.
             case dict_get usr attribute of
               Some v \<Rightarrow> dict_set mapped mapped_attribute v
             | None \<Rightarrow> mapped)
          mapping []"

text \<open>Lines 310 to 328: the object that \<^verbatim>\<open>create\<close> posts.\<close>

definition create_payload :: "(json \<Rightarrow> string) \<Rightarrow> user \<Rightarrow> json dict \<Rightarrow> error + json dict" where
  "create_payload repr self usr =
     (let mapped_new_user = map_known_fields (userflow_attribute_mapping self) usr;
          get = (\<lambda>k. case dict_get usr k of Some v \<Rightarrow> v | None \<Rightarrow> JNull);
          fallback = JStr (format_value repr (get ''givenName'') @ '' ''
                           @ format_value repr (get ''surname''));
          mapped_new_user = dict_set mapped_new_user ''displayName''
             (case dict_get usr ''displayName'' of Some d \<Rightarrow> d | None \<Rightarrow> fallback)
      in case dict_get usr ''email'' of
           None \<Rightarrow> Inl (KeyError ''email'')
         | Some email \<Rightarrow>
             (let mapped_new_user = dict_set mapped_new_user ''mail'' email;
                  mapped_new_user = dict_set mapped_new_user ''accountEnabled'' (JBool True);
                  mapped_new_user = dict_set mapped_new_user ''passwordPolicies''
                                      (JStr ''DisablePasswordExpiration'')
              in case dict_get usr ''password'' of
                   None \<Rightarrow> Inl (KeyError ''password'')
                 | Some password \<Rightarrow>
                     (let mapped_new_user = dict_set mapped_new_user ''passwordProfile''
                            (JObj [(''password'', password),
                                   (''forceChangePasswordNextSignIn'', JBool False)]);
                          mapped_new_user = dict_set mapped_new_user ''identities''
                            (JArr [JObj [(''issuer'', JStr (tenant_name self)),
                                         (''issuerAssignedId'', email),
                                         (''signInType'', JStr ''emailAddress'')]])
                      in Inr mapped_new_user)))"

definition create ::
  "(json \<Rightarrow> string) \<Rightarrow> user \<Rightarrow> server \<Rightarrow> json dict \<Rightarrow> (error + response) \<times> request list" where
  "create repr self srv usr =
     (case create_payload repr self usr of
        Inl e \<Rightarrow> (Inl e, [])
      | Inr mapped_new_user \<Rightarrow>
          (let req = Post (api_url self @ ''/users'') (JObj mapped_new_user)
           in (srv [] req, [req])))"

text \<open>\<^verbatim>\<open>update\<close>; a response object of the HTTP library is always truthy.\<close>

definition update ::
  "user \<Rightarrow> server \<Rightarrow> string \<Rightarrow> json dict \<Rightarrow> (error + bool) \<times> request list" where
  "update self srv userid usr =
     (let mapped_updated_customer = map_known_fields (userflow_attribute_mapping self) usr;
          req = Patch (api_url self @ ''/users/'' @ userid) (JObj mapped_updated_customer)
      in case srv [] req of
           Inl e \<Rightarrow> (Inl e, [req])
         | Inr update_user \<Rightarrow> (Inr True, [req]))"

section \<open>Notions used in the statements\<close>

text \<open>The key under which lines 73 and 80 store a schema entry.\<close>

definition mapping_key :: "(string \<Rightarrow> string) \<Rightarrow> extension \<Rightarrow> string" where
  "mapping_key lower e =
     (if userFlowAttributeType e = ''builtIn'' then ext_id e else lower (displayName e))"

text \<open>
  A server that answers the continuation links of \<open>page\<close> with the pages of \<open>rest\<close>, one
  after the other, the last of which carries no link.
\<close>

fun follows :: "server \<Rightarrow> request list \<Rightarrow> response \<Rightarrow> (string \<times> response) list \<Rightarrow> bool" where
  "follows srv log page [] = (dict_get page ''@odata.nextLink'' = None)"
| "follows srv log page ((link, next_page) # rest) =
     (dict_get page ''@odata.nextLink'' = Some (JStr link) \<and>
      srv log (Get link []) = Inr next_page \<and>
      follows srv (log @ [Get link []]) next_page rest)"

text \<open>The key under which lines 201 to 204 store an item of a record.\<close>

definition output_key :: "string list \<Rightarrow> string dict \<Rightarrow> string \<Rightarrow> string" where
  "output_key custom reversed attribute =
     (if attribute \<in> set custom
      then (case dict_get reversed attribute of Some name \<Rightarrow> name | None \<Rightarrow> attribute)
      else attribute)"

text \<open>The keys that \<^verbatim>\<open>create\<close> reads from its input by name, lines 314 to 325.\<close>

definition create_reads :: "string list" where
  "create_reads = [''displayName'', ''givenName'', ''surname'', ''email'', ''password'']"

section \<open>Example tenants\<close>

text \<open>
  The examples need a lower-casing function to run. Their display names are ASCII, and on
  ASCII text \<^verbatim>\<open>str.lower()\<close> turns the letters A to Z into a to z and keeps the rest.
\<close>

definition ascii_lower_char :: "char \<Rightarrow> char" where
  "ascii_lower_char c =
     (let n = (of_char c :: nat) in if 65 \<le> n \<and> n \<le> 90 then char_of (n + 32) else c)"

definition ascii_lower :: "string \<Rightarrow> string" where
  "ascii_lower s = map ascii_lower_char s"

text \<open>A schema with one built-in and one custom attribute, and the client built from it.\<close>

definition schema_two :: "extension list" where
  "schema_two =
     [\<lparr> ext_id = ''city'', displayName = ''City'', userFlowAttributeType = ''builtIn'' \<rparr>,
      \<lparr> ext_id = ''extension_0a1b_Loyalty'', displayName = ''Loyalty'',
        userFlowAttributeType = ''custom'' \<rparr>]"

definition example_user :: user where
  "example_user =
     fst (init ascii_lower [] ''contoso.onmicrosoft.com'' ''https://graph.microsoft.com/v1.0'' schema_two)"

text \<open>A schema whose custom attribute is displayed under the name of a built-in one.\<close>

definition schema_clash :: "extension list" where
  "schema_clash =
     [\<lparr> ext_id = ''city'', displayName = ''City'', userFlowAttributeType = ''builtIn'' \<rparr>,
      \<lparr> ext_id = ''extension_0a1b_City'', displayName = ''City'',
        userFlowAttributeType = ''custom'' \<rparr>]"

text \<open>A server that hands out 2040 users, each with its own id, in three pages of 999,
  999 and 42.\<close>

definition example_customer :: "nat \<Rightarrow> json" where
  "example_customer i = JObj [(''id'', JInt (int i))]"

definition page_one_ids :: "nat list" where
  "page_one_ids = [0..<999]"

definition page_two_ids :: "nat list" where
  "page_two_ids = [999..<1998]"

definition page_three_ids :: "nat list" where
  "page_three_ids = [1998..<2040]"

definition link_two :: string where
  "link_two = ''https://graph.microsoft.com/v1.0/users?$skiptoken=2''"

definition link_three :: string where
  "link_three = ''https://graph.microsoft.com/v1.0/users?$skiptoken=3''"

definition page_one :: response where
  "page_one =
     [(''value'', JArr (map example_customer page_one_ids)), (''@odata.nextLink'', JStr link_two)]"

definition page_two :: response where
  "page_two =
     [(''value'', JArr (map example_customer page_two_ids)),
      (''@odata.nextLink'', JStr link_three)]"

definition page_three :: response where
  "page_three = [(''value'', JArr (map example_customer page_three_ids))]"

definition paged_server :: server where
  "paged_server log req =
     (case req of
        Get url params \<Rightarrow>
          (if url = link_two then Inr page_two
           else if url = link_three then Inr page_three
           else Inr page_one)
      | _ \<Rightarrow> Inl (HTTPError ''405''))"

text \<open>A tenant whose schema has the built-in attribute \<open>jobTitle\<close>, and a server that
  answers every request with one user's object.\<close>

definition schema_job :: "extension list" where
  "schema_job =
     [\<lparr> ext_id = ''jobTitle'', displayName = ''Job Title'', userFlowAttributeType = ''builtIn'' \<rparr>,
      \<lparr> ext_id = ''extension_0a1b_Loyalty'', displayName = ''Loyalty'',
        userFlowAttributeType = ''custom'' \<rparr>]"

definition job_user :: user where
  "job_user =
     fst (init ascii_lower [] ''contoso.onmicrosoft.com'' ''https://graph.microsoft.com/v1.0'' schema_job)"

definition profile_server :: server where
  "profile_server log req = Inr [(''id'', JStr ''7d1c''), (''jobTitle'', JStr ''Clerk'')]"

text \<open>A server that accepts whatever it is sent, and a record for a new user.\<close>

definition accepting_server :: server where
  "accepting_server log req = Inr []"

definition new_user :: "json dict" where
  "new_user =
     [(''email'', JStr ''ada@example.org''), (''password'', JStr ''S3cret!pass''),
      (''givenName'', JStr ''Ada''), (''surname'', JStr ''Lovelace''),
      (''loyalty'', JStr ''gold''), (''unknownfield'', JStr ''x'')]"

text \<open>A tenant with a custom attribute displayed as \<open>Mail\<close>.\<close>

definition schema_mail :: "extension list" where
  "schema_mail =
     [\<lparr> ext_id = ''extension_0a1b_Mail'', displayName = ''Mail'',
        userFlowAttributeType = ''custom'' \<rparr>]"


section \<open>Dictionaries\<close>

lemma dict_get_set:
  "dict_get (dict_set d k v) k' = (if k' = k then Some v else dict_get d k')"
  by (induction d) (auto simp: dict_get_def)

lemma dict_keys_set:
  "dict_keys (dict_set d k v) =
     (if k \<in> set (dict_keys d) then dict_keys d else dict_keys d @ [k])"
  by (induction d) (force simp: dict_keys_def)+

lemma distinct_dict_set: "distinct (dict_keys d) \<Longrightarrow> distinct (dict_keys (dict_set d k v))"
  by (simp add: dict_keys_set)

lemma dict_get_None_iff: "dict_get d k = None \<longleftrightarrow> k \<notin> set (dict_keys d)"
  by (simp add: dict_get_def dict_keys_def map_of_eq_None_iff)

section \<open>The constructor\<close>

lemma fst_add_extension: "fst (add_extension lower e s) = dict_set (fst s) (mapping_key lower e) (ext_id e)"
  by (cases s) (simp add: mapping_key_def Let_def)

lemma snd_add_extension:
  "snd (add_extension lower e s) =
     snd s @ (if userFlowAttributeType e = ''builtIn'' then [] else [ext_id e])"
  by (cases s) (simp add: Let_def)

lemma snd_fold_add_extension:
  "snd (fold (add_extension lower) xs s) =
     snd s @ map ext_id (filter (\<lambda>e. userFlowAttributeType e \<noteq> ''builtIn'') xs)"
  by (induction xs arbitrary: s) (auto simp: snd_add_extension)

text \<open>The last entry to write a key decides what the key maps to.\<close>

lemma get_fold_add_extension_last:
  "\<forall>e' \<in> set post. mapping_key lower e' \<noteq> mapping_key lower e \<Longrightarrow>
   dict_get (fst (fold (add_extension lower) (pre @ e # post) s)) (mapping_key lower e) = Some (ext_id e)"
proof (induction post rule: rev_induct)
  case Nil
  show ?case by (simp add: fst_add_extension dict_get_set)
next
  case (snoc x xs)
  then have "dict_get (fst (fold (add_extension lower) (pre @ e # xs) s)) (mapping_key lower e) = Some (ext_id e)"
    and "mapping_key lower x \<noteq> mapping_key lower e" by auto
  moreover have "fold (add_extension lower) (pre @ e # xs @ [x]) s =
      add_extension lower x (fold (add_extension lower) (pre @ e # xs) s)"
    by simp
  ultimately show ?case by (simp only: fst_add_extension dict_get_set) auto
qed

lemma distinct_fold_add_extension:
  "distinct (dict_keys (fst s)) \<Longrightarrow> distinct (dict_keys (fst (fold (add_extension lower) xs s)))"
  by (induction xs arbitrary: s) (auto simp: fst_add_extension distinct_dict_set)

lemma init_mapping:
  "userflow_attribute_mapping (fst (init lower c t u xs)) = fst (fold (add_extension lower) xs ([], c))"
  by (simp add: init_def Let_def split: prod.splits)

lemma init_custom: "snd (init lower c t u xs) = snd (fold (add_extension lower) xs ([], c))"
  by (simp add: init_def Let_def split: prod.splits)

lemma init_distinct: "distinct (dict_keys (userflow_attribute_mapping (fst (init lower c t u xs))))"
  unfolding init_mapping by (rule distinct_fold_add_extension) (simp add: dict_keys_def)

lemma ascii_lower_City: "ascii_lower ''City'' = ''city''"
  by code_simp

lemma ascii_lower_Loyalty: "ascii_lower ''Loyalty'' = ''loyalty''"
  by code_simp

lemma example_mapping:
  "userflow_attribute_mapping example_user =
     [(''city'', ''city''), (''loyalty'', ''extension_0a1b_Loyalty'')]"
  by (simp add: example_user_def init_mapping schema_two_def ascii_lower_Loyalty Let_def)

lemma example_url: "api_url example_user = ''https://graph.microsoft.com/v1.0''"
  by (simp add: example_user_def init_def Let_def split: prod.splits)

text \<open>
  C1, as the claim states it, fails: in \<open>schema_clash\<close> the built-in entry \<open>city\<close> is not
  mapped to itself, because the custom entry that follows is stored under the same key.
\<close>

theorem init_builtin_overwritten:
  "userFlowAttributeType (schema_clash ! 0) = ''builtIn'' \<and>
   dict_get (userflow_attribute_mapping
               (fst (init ascii_lower [] ''contoso.onmicrosoft.com'' ''https://graph.microsoft.com/v1.0''
                       schema_clash)))
     (ext_id (schema_clash ! 0)) = Some ''extension_0a1b_City''"
  by (simp add: init_mapping schema_clash_def ascii_lower_City dict_get_def Let_def)

text \<open>
  C1, amended: an entry of the schema whose key no later entry writes again is mapped as
  the claim says, a built-in id to itself and the lower-cased display name of any other
  entry to its id, which is then in the class-level list of custom attributes. That list,
  after the construction, is the list before it followed by the ids of the entries that
  are not built-in, in the order of the schema. This holds whatever function \<open>lower\<close>
  is, so also for the lower-casing of Python; two display names collide exactly when that
  function gives them the same key.
\<close>

theorem init_mapping_entry:
  assumes "extension_user_attributes = pre @ e # post"
    and "\<forall>e' \<in> set post. mapping_key lower e' \<noteq> mapping_key lower e"
  shows
  "(userFlowAttributeType e = ''builtIn'' \<longrightarrow>
      dict_get (userflow_attribute_mapping (fst (init lower custom tenant url extension_user_attributes)))
        (ext_id e) = Some (ext_id e)) \<and>
   (userFlowAttributeType e \<noteq> ''builtIn'' \<longrightarrow>
      dict_get (userflow_attribute_mapping (fst (init lower custom tenant url extension_user_attributes)))
        (lower (displayName e)) = Some (ext_id e) \<and>
      ext_id e \<in> set (snd (init lower custom tenant url extension_user_attributes))) \<and>
   snd (init lower custom tenant url extension_user_attributes) =
     custom @ map ext_id (filter (\<lambda>x. userFlowAttributeType x \<noteq> ''builtIn'')
                            extension_user_attributes)"
proof -
  have stored: "dict_get (userflow_attribute_mapping
        (fst (init lower custom tenant url extension_user_attributes))) (mapping_key lower e) = Some (ext_id e)"
    unfolding init_mapping assms(1) by (rule get_fold_add_extension_last) (rule assms(2))
  have appended: "snd (init lower custom tenant url extension_user_attributes) =
     custom @ map ext_id (filter (\<lambda>x. userFlowAttributeType x \<noteq> ''builtIn'')
                            extension_user_attributes)"
    by (simp add: init_custom snd_fold_add_extension)
  have "userFlowAttributeType e \<noteq> ''builtIn'' \<Longrightarrow>
      ext_id e \<in> set (snd (init lower custom tenant url extension_user_attributes))"
    using appended by (simp add: assms(1))
  with stored appended show ?thesis
    by (cases "userFlowAttributeType e = ''builtIn''") (simp_all add: mapping_key_def)
qed

theorem init_mapping_entry_witness:
  "schema_two = [] @ schema_two ! 0 # [schema_two ! 1] \<and>
   mapping_key ascii_lower (schema_two ! 1) \<noteq> mapping_key ascii_lower (schema_two ! 0) \<and>
   userFlowAttributeType (schema_two ! 0) = ''builtIn'' \<and>
   dict_get (userflow_attribute_mapping (fst (init ascii_lower [] ''t'' ''u'' schema_two))) ''city''
     = Some ''city'' \<and>
   snd (init ascii_lower [] ''t'' ''u'' schema_two) = [''extension_0a1b_Loyalty'']"
proof -
  have h1: "schema_two = [] @ schema_two ! 0 # [schema_two ! 1]"
    by (simp add: schema_two_def)
  have h2: "\<forall>e' \<in> set [schema_two ! 1].
      mapping_key ascii_lower e' \<noteq> mapping_key ascii_lower (schema_two ! 0)"
    by (simp add: schema_two_def mapping_key_def ascii_lower_Loyalty)
  show ?thesis
    using init_mapping_entry [OF h1 h2, of "[]" "''t''" "''u''"] h1 h2
    by (simp add: schema_two_def)
qed

text \<open>
  C9: the list of custom attributes belongs to the class. A construction appends to what
  earlier constructions left there, so after two constructions against the same schema,
  starting from the empty list, the custom ids of the schema stand in it twice over, and
  each id occurs twice as often as in the schema.
\<close>

theorem custom_user_attributes_shared:
  "snd (init lower custom tenant url schema) =
     custom @ map ext_id (filter (\<lambda>x. userFlowAttributeType x \<noteq> ''builtIn'') schema) \<and>
   snd (init lower (snd (init lower [] tenant url schema)) tenant' url' schema) =
     map ext_id (filter (\<lambda>x. userFlowAttributeType x \<noteq> ''builtIn'') schema)
     @ map ext_id (filter (\<lambda>x. userFlowAttributeType x \<noteq> ''builtIn'') schema) \<and>
   count_list (snd (init lower (snd (init lower [] tenant url schema)) tenant' url' schema)) i =
     2 * count_list (map ext_id (filter (\<lambda>x. userFlowAttributeType x \<noteq> ''builtIn'') schema)) i"
  by (simp add: init_custom snd_fold_add_extension)

section \<open>Listing users\<close>

lemma attributes_to_fetch_unknown:
  "a \<in> set incl \<Longrightarrow> a \<notin> set (dict_keys mapping) \<Longrightarrow>
   \<exists>b \<in> set incl. b \<notin> set (dict_keys mapping) \<and>
     attributes_to_fetch mapping incl acc = Inl (ValueError (unknown_attribute_message mapping b))"
proof (induction incl arbitrary: acc)
  case Nil
  then show ?case by simp
next
  case (Cons x xs)
  show ?case
  proof (cases "dict_get mapping x")
    case None
    then have "x \<notin> set (dict_keys mapping)" by (simp add: dict_get_None_iff)
    with None show ?thesis by (intro bexI [of _ x]) simp_all
  next
    case (Some m)
    then have "x \<in> set (dict_keys mapping)" using dict_get_None_iff [of mapping x] by auto
    with Cons.prems have "a \<in> set xs" by auto
    from Cons.IH [OF this Cons.prems(2), of "insert m acc"] Some show ?thesis by auto
  qed
qed

text \<open>
  C4: when \<^verbatim>\<open>include_attributes\<close> holds a name that is not a key of the mapping,
  \<^verbatim>\<open>list\<close> raises a \<^verbatim>\<open>ValueError\<close> for such a name, the first one, whose message
  lists the keys of the mapping, and it has issued no request.
\<close>

theorem list_unknown_attribute_rejected:
  "a \<in> set include_attributes \<Longrightarrow>
   a \<notin> set (dict_keys (userflow_attribute_mapping self)) \<Longrightarrow>
   \<exists>b \<in> set include_attributes. b \<notin> set (dict_keys (userflow_attribute_mapping self)) \<and>
     list_users self custom srv mx include_attributes =
       Some (Inl (ValueError (b @ '' is not a known attribute. Only ''
                    @ join '','' (dict_keys (userflow_attribute_mapping self))
                    @ '' are allowed'')), [])"
proof -
  assume "a \<in> set include_attributes" "a \<notin> set (dict_keys (userflow_attribute_mapping self))"
  from attributes_to_fetch_unknown [OF this, of "set base_user_attributes"]
  show ?thesis by (auto simp: list_users_def unknown_attribute_message_def)
qed

theorem list_unknown_attribute_rejected_witness:
  "''unknownfield'' \<in> set [''loyalty'', ''unknownfield''] \<and>
   ''unknownfield'' \<notin> set (dict_keys (userflow_attribute_mapping example_user)) \<and>
   list_users example_user [''extension_0a1b_Loyalty''] paged_server 0
       [''loyalty'', ''unknownfield''] =
     Some (Inl (ValueError
       ''unknownfield is not a known attribute. Only city,loyalty are allowed''), [])"
proof -
  have h1: "''unknownfield'' \<in> set [''loyalty'', ''unknownfield'']" by simp
  have h2: "''unknownfield'' \<notin> set (dict_keys (userflow_attribute_mapping example_user))"
    by (simp add: example_mapping dict_keys_def)
  show ?thesis
    using list_unknown_attribute_rejected [OF h1 h2, of "[''extension_0a1b_Loyalty'']" paged_server 0] h2
    by (simp add: example_mapping dict_keys_def)
qed

text \<open>
  C2 does not hold of the code for a negative \<^verbatim>\<open>max\<close>: the test \<^verbatim>\<open>max <= 999\<close>
  lets it through, and \<^verbatim>\<open>list\<close> with \<^verbatim>\<open>max = -1\<close> sends the request with
  \<^verbatim>\<open>$top = -1\<close>, whatever the client and the server.
\<close>

theorem list_negative_max_issues_request:
  "map_option snd (list_users self custom srv (- 1) []) =
     Some [users_request self (set base_user_attributes) (- 1)]"
  by (simp add: list_users_def Let_def split: sum.splits)

text \<open>Above 999 the call is refused, and no request is issued.\<close>

lemma list_max_above_999:
  "999 < mx \<Longrightarrow> \<exists>e. list_users self custom srv mx include_attributes = Some (Inl e, [])"
  by (simp add: list_users_def Let_def split: sum.splits)

lemma extend_value_JArr:
  "dict_get page ''value'' = Some (JArr xs) \<Longrightarrow> extend_value acc page = Inr (acc @ xs)"
  by (simp add: extend_value_def)

text \<open>The loop ends on a chain of pages, with every page's records and every link's request.\<close>

lemma fetch_pages_follows:
  "follows srv log page rest \<Longrightarrow>
   map (\<lambda>lp. dict_get (snd lp) ''value'') rest = map (\<lambda>xs. Some (JArr xs)) recs \<Longrightarrow>
   fetch_pages srv page acc log =
     Some (Inr (acc @ concat recs), log @ map (\<lambda>(link, p). Get link []) rest)"
proof (induction rest arbitrary: log page acc recs)
  case Nil
  then show ?case by (subst fetch_pages.simps) simp
next
  case (Cons lp rest)
  obtain link p where lp: "lp = (link, p)" by (cases lp)
  from Cons.prems(2) obtain xs recs' where recs: "recs = xs # recs'" by (cases recs) auto
  from Cons.prems(2) lp recs have xs: "dict_get p ''value'' = Some (JArr xs)"
    and ok: "map (\<lambda>lp. dict_get (snd lp) ''value'') rest = map (\<lambda>xs. Some (JArr xs)) recs'"
    by auto
  from Cons.prems(1) lp have nl: "dict_get page ''@odata.nextLink'' = Some (JStr link)"
    and sv: "srv log (Get link []) = Inr p"
    and fl: "follows srv (log @ [Get link []]) p rest" by auto
  have "fetch_pages srv page acc log = fetch_pages srv p (acc @ xs) (log @ [Get link []])"
    by (subst fetch_pages.simps) (simp add: nl sv extend_value_JArr [OF xs])
  also have "\<dots> = Some (Inr ((acc @ xs) @ concat recs'),
       (log @ [Get link []]) @ map (\<lambda>(link, p). Get link []) rest)"
    by (rule Cons.IH [OF fl ok])
  finally show ?case by (simp add: lp recs)
qed

text \<open>The loop over the records keeps their order: a result is, element by element, the
  remapping of the records; and there is a result when every record can be remapped.\<close>

lemma map_customers_list_all2:
  "map_customers custom reversed xs acc = Inr out \<Longrightarrow>
   \<exists>ys. out = acc @ ys \<and>
     list_all2 (\<lambda>customer remapped. remap_customer custom reversed customer = Inr remapped) xs ys"
proof (induction xs arbitrary: acc)
  case Nil
  then show ?case by simp
next
  case (Cons x xs)
  from Cons.prems obtain y where y: "remap_customer custom reversed x = Inr y"
    and run: "map_customers custom reversed xs (acc @ [y]) = Inr out"
    by (auto split: sum.splits)
  from Cons.IH [OF run] obtain ys where "out = (acc @ [y]) @ ys"
    "list_all2 (\<lambda>customer remapped. remap_customer custom reversed customer = Inr remapped) xs ys"
    by blast
  with y show ?case by (intro exI [of _ "y # ys"]) simp
qed

lemma map_customers_all:
  "\<forall>x \<in> set xs. remap_customer custom reversed x = Inr (f x) \<Longrightarrow>
   map_customers custom reversed xs acc = Inr (acc @ map f xs)"
  by (induction xs arbitrary: acc) auto

lemma map_customers_total:
  assumes "\<forall>x \<in> set xs. \<exists>y. remap_customer custom reversed x = Inr y"
  shows "\<exists>out. map_customers custom reversed xs acc = Inr out"
proof -
  let ?f = "\<lambda>x. case remap_customer custom reversed x of Inr y \<Rightarrow> y | Inl e \<Rightarrow> []"
  from assms have "\<forall>x \<in> set xs. remap_customer custom reversed x = Inr (?f x)" by auto
  from map_customers_all [OF this] show ?thesis by blast
qed

text \<open>
  C5: with \<^verbatim>\<open>max = 0\<close>, \<^verbatim>\<open>list\<close> first asks \<^verbatim>\<open>/users\<close> for the needed attributes of
  local accounts, 999 at a time. When the server answers that with \<open>page\<close> and the
  continuation links with the pages of \<open>rest\<close>, the last without a link, and the pages
  hold the lists of records \<open>recs\<close>, the call returns: it has followed each link in turn,
  with one plain GET, and it remaps the records of all the pages, kept in their order. A
  result without error is, element by element, the remapping of those records, so it has
  as many records as the pages together; and there is such a result whenever every record
  can be remapped.
\<close>

theorem list_all_follows_links:
  assumes "attributes_to_fetch (userflow_attribute_mapping self) include_attributes
             (set base_user_attributes) = Inr needed"
    and "srv [] (Get (api_url self @ ''/users'')
                   [(''$select'', PJoin needed), (''$top'', PInt 999),
                    (''$filter'', PStr (''creationType eq '' @ [CHR 0x27] @ ''LocalAccount''
                                         @ [CHR 0x27]))]) = Inr page"
    and "follows srv
           [Get (api_url self @ ''/users'')
              [(''$select'', PJoin needed), (''$top'', PInt 999),
               (''$filter'', PStr (''creationType eq '' @ [CHR 0x27] @ ''LocalAccount''
                                    @ [CHR 0x27]))]]
           page rest"
    and "map (\<lambda>p. dict_get p ''value'') (page # map snd rest) = map (\<lambda>xs. Some (JArr xs)) recs"
  shows "list_users self custom srv 0 include_attributes =
           Some (map_customers custom (reversed_mapping (userflow_attribute_mapping self))
                   (concat recs) [],
                 Get (api_url self @ ''/users'')
                   [(''$select'', PJoin needed), (''$top'', PInt 999),
                    (''$filter'', PStr (''creationType eq '' @ [CHR 0x27] @ ''LocalAccount''
                                         @ [CHR 0x27]))]
                 # map (\<lambda>(link, p). Get link []) rest) \<and>
         (\<forall>out. map_customers custom (reversed_mapping (userflow_attribute_mapping self))
                   (concat recs) [] = Inr out \<longrightarrow>
                list_all2 (\<lambda>customer remapped.
                     remap_customer custom (reversed_mapping (userflow_attribute_mapping self))
                       customer = Inr remapped)
                  (concat recs) out \<and>
                length out = sum_list (map length recs)) \<and>
         ((\<forall>customer \<in> set (concat recs).
             \<exists>remapped. remap_customer custom
                (reversed_mapping (userflow_attribute_mapping self)) customer = Inr remapped) \<longrightarrow>
          (\<exists>out. map_customers custom (reversed_mapping (userflow_attribute_mapping self))
                   (concat recs) [] = Inr out))"
proof -
  let ?req = "users_request self needed 999"
  let ?R = "reversed_mapping (userflow_attribute_mapping self)"
  have req: "Get (api_url self @ ''/users'')
                   [(''$select'', PJoin needed), (''$top'', PInt 999),
                    (''$filter'', PStr (''creationType eq '' @ [CHR 0x27] @ ''LocalAccount''
                                         @ [CHR 0x27]))] = ?req"
    by (simp add: users_request_def local_account_filter_def)
  from assms(4) obtain xs recs' where recs: "recs = xs # recs'" by (cases recs) auto
  from assms(4) recs have xs: "dict_get page ''value'' = Some (JArr xs)"
    and ok: "map (\<lambda>lp. dict_get (snd lp) ''value'') rest = map (\<lambda>xs. Some (JArr xs)) recs'"
    by (auto simp: comp_def)
  have loop: "fetch_pages srv page xs [?req] =
     Some (Inr (xs @ concat recs'), [?req] @ map (\<lambda>(link, p). Get link []) rest)"
    by (rule fetch_pages_follows [OF assms(3) [unfolded req] ok])
  have run: "list_users self custom srv 0 include_attributes =
           Some (map_customers custom ?R (concat recs) [],
                 ?req # map (\<lambda>(link, p). Get link []) rest)"
    using assms(2) [unfolded req]
    by (simp add: list_users_def assms(1) extend_value_JArr [OF xs] loop recs Let_def)
  have order: "list_all2 (\<lambda>customer remapped. remap_customer custom ?R customer = Inr remapped)
                  (concat recs) out \<and> length out = sum_list (map length recs)"
    if "map_customers custom ?R (concat recs) [] = Inr out" for out
  proof -
    from map_customers_list_all2 [OF that]
    have l: "list_all2 (\<lambda>customer remapped. remap_customer custom ?R customer = Inr remapped)
                  (concat recs) out" by simp
    from list_all2_lengthD [OF l] have "length out = sum_list (map length recs)"
      by (simp add: length_concat)
    with l show ?thesis by simp
  qed
  have total: "\<exists>out. map_customers custom ?R (concat recs) [] = Inr out"
    if "\<forall>customer \<in> set (concat recs).
             \<exists>remapped. remap_customer custom ?R customer = Inr remapped"
    by (rule map_customers_total [OF that])
  from run order total show ?thesis unfolding req by blast
qed

lemma example_ids: "page_one_ids @ page_two_ids @ page_three_ids = [0..<2040]"
proof -
  have "[0..<999 + 999] = [0..<999] @ [999..<999 + 999]"
    by (rule upt_add_eq_append) simp
  moreover have "[0..<1998 + 42] = [0..<1998] @ [1998..<1998 + 42]"
    by (rule upt_add_eq_append) simp
  moreover have "(999::nat) + 999 = 1998" "(1998::nat) + 42 = 2040" by simp_all
  ultimately show ?thesis
    by (simp only: page_one_ids_def page_two_ids_def page_three_ids_def append_assoc)
qed

theorem list_all_follows_links_witness:
  "attributes_to_fetch (userflow_attribute_mapping example_user) [] (set base_user_attributes)
     = Inr (set base_user_attributes) \<and>
   paged_server []
     (Get ''https://graph.microsoft.com/v1.0/users''
        [(''$select'', PJoin (set base_user_attributes)), (''$top'', PInt 999),
         (''$filter'', PStr (''creationType eq '' @ [CHR 0x27] @ ''LocalAccount''
                              @ [CHR 0x27]))]) = Inr page_one \<and>
   follows paged_server
     [Get ''https://graph.microsoft.com/v1.0/users''
        [(''$select'', PJoin (set base_user_attributes)), (''$top'', PInt 999),
         (''$filter'', PStr (''creationType eq '' @ [CHR 0x27] @ ''LocalAccount''
                              @ [CHR 0x27]))]]
     page_one [(link_two, page_two), (link_three, page_three)] \<and>
   map (\<lambda>p. dict_get p ''value'') [page_one, page_two, page_three] =
     map (\<lambda>xs. Some (JArr xs))
       [map example_customer page_one_ids, map example_customer page_two_ids,
        map example_customer page_three_ids] \<and>
   list_users example_user [] paged_server 0 [] =
     Some (Inr (map (\<lambda>i. [(''id'', JInt (int i))]) [0..<2040]),
           [Get ''https://graph.microsoft.com/v1.0/users''
              [(''$select'', PJoin (set base_user_attributes)), (''$top'', PInt 999),
               (''$filter'', PStr (''creationType eq '' @ [CHR 0x27] @ ''LocalAccount''
                                    @ [CHR 0x27]))],
            Get link_two [], Get link_three []]) \<and>
   length (map (\<lambda>i. [(''id'', JInt (int i))]) [0..<2040]) = 2040"
proof -
  let ?req = "Get ''https://graph.microsoft.com/v1.0/users''
        [(''$select'', PJoin (set base_user_attributes)), (''$top'', PInt 999),
         (''$filter'', PStr (''creationType eq '' @ [CHR 0x27] @ ''LocalAccount''
                              @ [CHR 0x27]))]"
  let ?rest = "[(link_two, page_two), (link_three, page_three)]"
  let ?recs = "[map example_customer page_one_ids, map example_customer page_two_ids,
        map example_customer page_three_ids]"
  have h1: "attributes_to_fetch (userflow_attribute_mapping example_user) []
      (set base_user_attributes) = Inr (set base_user_attributes)" by simp
  have h2: "paged_server [] ?req = Inr page_one"
    by (simp add: paged_server_def link_two_def link_three_def)
  have h3: "follows paged_server [?req] page_one ?rest"
    by (simp add: paged_server_def page_one_def page_two_def page_three_def dict_get_def
        link_two_def link_three_def)
  have h4: "map (\<lambda>p. dict_get p ''value'') (page_one # map snd ?rest) =
      map (\<lambda>xs. Some (JArr xs)) ?recs"
    by (simp add: page_one_def page_two_def page_three_def dict_get_def)
  have recs: "concat ?recs = map example_customer [0..<2040]"
    unfolding example_ids [symmetric] by simp
  have "map_customers [] (reversed_mapping (userflow_attribute_mapping example_user))
      (map example_customer [0..<2040]) [] =
      Inr ([] @ map (\<lambda>c. case c of JObj items \<Rightarrow> items | _ \<Rightarrow> [])
                 (map example_customer [0..<2040]))"
    by (rule map_customers_all) (auto simp: example_customer_def)
  then have remap: "map_customers [] (reversed_mapping (userflow_attribute_mapping example_user))
      (concat ?recs) [] = Inr (map (\<lambda>i. [(''id'', JInt (int i))]) [0..<2040])"
    unfolding recs by (simp add: example_customer_def comp_def del: upt_rec_numeral)
  have len: "length (map (\<lambda>i. [(''id'', JInt (int i))]) [0..<2040]) = 2040"
    by (simp del: upt_rec_numeral)
  have url: "Get (api_url example_user @ ''/users'')
        [(''$select'', PJoin (set base_user_attributes)), (''$top'', PInt 999),
         (''$filter'', PStr (''creationType eq '' @ [CHR 0x27] @ ''LocalAccount''
                              @ [CHR 0x27]))] = ?req"
    by (simp add: example_url)
  from list_all_follows_links [of example_user "[]" "set base_user_attributes" paged_server
      page_one ?rest ?recs "[]", unfolded url, OF h1 h2 h3 h4]
  have "list_users example_user [] paged_server 0 [] =
     Some (map_customers [] (reversed_mapping (userflow_attribute_mapping example_user))
             (concat ?recs) [],
           ?req # map (\<lambda>(link, p). Get link []) ?rest)"
    by (rule conjunct1)
  then have run: "list_users example_user [] paged_server 0 [] =
     Some (Inr (map (\<lambda>i. [(''id'', JInt (int i))]) [0..<2040]),
           [?req, Get link_two [], Get link_three []])"
    unfolding remap by simp
  have h4': "map (\<lambda>p. dict_get p ''value'') [page_one, page_two, page_three] =
      map (\<lambda>xs. Some (JArr xs)) ?recs"
    using h4 by simp
  from h1 h2 h3 h4' run len show ?thesis by (intro conjI)
qed

section \<open>The profile of a user\<close>

lemma dict_set_new: "k \<notin> set (dict_keys d) \<Longrightarrow> dict_set d k v = d @ [(k, v)]"
  by (induction d) (auto simp: dict_keys_def)

lemma fold_dict_set_distinct:
  "distinct (dict_keys acc @ map fst xs) \<Longrightarrow>
   fold (\<lambda>(a, m) d. dict_set d a (f m)) xs acc = acc @ map (\<lambda>(a, m). (a, f m)) xs"
proof (induction xs arbitrary: acc)
  case Nil
  then show ?case by simp
next
  case (Cons x xs)
  obtain a m where x: "x = (a, m)" by (cases x)
  from Cons.prems x have new: "a \<notin> set (dict_keys acc)" by auto
  from Cons.prems x have "distinct (dict_keys (acc @ [(a, f m)]) @ map fst xs)"
    by (auto simp: dict_keys_def)
  from Cons.IH [OF this] show ?case by (simp add: x dict_set_new [OF new])
qed

lemma full_mapping_distinct:
  "distinct (dict_keys mapping) \<Longrightarrow>
   full_mapping mapping g =
     map (\<lambda>(a, m). (a, case dict_get g m of Some v \<Rightarrow> v | None \<Rightarrow> JNull)) mapping"
  using fold_dict_set_distinct
    [of "[]" mapping "\<lambda>m. case dict_get g m of Some v \<Rightarrow> v | None \<Rightarrow> JNull"]
  by (simp add: full_mapping_def dict_keys_def)

lemma fold_dict_pop:
  "fold (\<lambda>attribute d. dict_pop d attribute) ks d = filter (\<lambda>(k, v). k \<notin> set ks) d"
proof (induction ks arbitrary: d)
  case Nil
  show ?case by simp
next
  case (Cons k ks)
  have "fold (\<lambda>attribute d. dict_pop d attribute) (k # ks) d =
      fold (\<lambda>attribute d. dict_pop d attribute) ks (dict_pop d k)" by simp
  also have "\<dots> = filter (\<lambda>(k', v). k' \<notin> set ks) (dict_pop d k)" by (rule Cons.IH)
  also have "\<dots> = filter (\<lambda>(k', v). k' \<notin> set (k # ks)) d"
    unfolding dict_pop_def by (induction d) auto
  finally show ?case .
qed

lemma job_mapping:
  "userflow_attribute_mapping job_user =
     [(''jobTitle'', ''jobTitle''), (''loyalty'', ''extension_0a1b_Loyalty'')]"
  by (simp add: job_user_def init_mapping schema_job_def ascii_lower_Loyalty Let_def)

text \<open>
  C6, as the claim states it, fails: \<open>jobTitle\<close> is a key of the mapping of \<open>job_user\<close>
  and the server returns a value for it, but the profile has no such key, since it is one
  of the unwanted attributes.
\<close>

theorem profile_drops_unwanted_key:
  "dict_get (userflow_attribute_mapping job_user) ''jobTitle'' = Some ''jobTitle'' \<and>
   fst (profile job_user profile_server ''7d1c'' None) = Inr [(''loyalty'', JNull)]"
  by (simp add: job_mapping profile_def profile_server_def full_mapping_def dict_get_def
      unwanted_attributes_def dict_pop_def Let_def)

text \<open>
  C6, amended: when the server answers the request of \<^verbatim>\<open>profile\<close> with an object, the
  result has one key for each attribute name of the mapping that is not an unwanted
  attribute, in the order of the mapping, and no other key; its value is what the server
  returned under the mapped id, and null when the server left the field out.
\<close>

theorem profile_keys_and_values:
  assumes "srv [] (profile_request (fst (init lower custom tenant url schema)) userid user_attributes)
             = Inr graph_user_profile"
  shows "profile (fst (init lower custom tenant url schema)) srv userid user_attributes =
          (Inr (map (\<lambda>(attribute, mapped_attribute).
                      (attribute,
                       case dict_get graph_user_profile mapped_attribute of
                         Some v \<Rightarrow> v | None \<Rightarrow> JNull))
                 (filter (\<lambda>(attribute, mapped_attribute). attribute \<notin> set unwanted_attributes)
                    (userflow_attribute_mapping (fst (init lower custom tenant url schema))))),
           [profile_request (fst (init lower custom tenant url schema)) userid user_attributes])"
  by (simp add: profile_def assms Let_def full_mapping_distinct [OF init_distinct]
      fold_dict_pop filter_map comp_def case_prod_unfold)

theorem profile_keys_and_values_witness:
  "profile_server [] (profile_request example_user ''7d1c'' None)
     = Inr [(''id'', JStr ''7d1c''), (''jobTitle'', JStr ''Clerk'')] \<and>
   fst (profile example_user profile_server ''7d1c'' None) =
     Inr [(''city'', JNull), (''loyalty'', JNull)]"
proof -
  have h: "profile_server [] (profile_request
      (fst (init ascii_lower [] ''contoso.onmicrosoft.com'' ''https://graph.microsoft.com/v1.0'' schema_two))
      ''7d1c'' None) = Inr [(''id'', JStr ''7d1c''), (''jobTitle'', JStr ''Clerk'')]"
    by (simp add: profile_server_def)
  from profile_keys_and_values
    [of profile_server ascii_lower "[]" "''contoso.onmicrosoft.com''" "''https://graph.microsoft.com/v1.0''"
      schema_two "''7d1c''" None, OF h] h
  show ?thesis
    using example_mapping
    by (simp add: example_user_def unwanted_attributes_def dict_get_def)
qed

section \<open>Creating and updating users\<close>

lemma create_payload_ok:
  assumes "dict_get usr ''email'' = Some email" and "dict_get usr ''password'' = Some password"
  shows "\<exists>payload. create_payload repr self usr = Inr payload \<and>
     dict_get payload ''accountEnabled'' = Some (JBool True) \<and>
     dict_get payload ''passwordPolicies'' = Some (JStr ''DisablePasswordExpiration'') \<and>
     dict_get payload ''passwordProfile'' =
       Some (JObj [(''password'', password), (''forceChangePasswordNextSignIn'', JBool False)]) \<and>
     dict_get payload ''identities'' =
       Some (JArr [JObj [(''issuer'', JStr (tenant_name self)),
                         (''issuerAssignedId'', email),
                         (''signInType'', JStr ''emailAddress'')]]) \<and>
     dict_get payload ''mail'' = Some email \<and>
     dict_get payload ''displayName'' =
       Some (case dict_get usr ''displayName'' of
               Some d \<Rightarrow> d
             | None \<Rightarrow>
                 JStr (format_value repr
                         (case dict_get usr ''givenName'' of Some v \<Rightarrow> v | None \<Rightarrow> JNull)
                       @ '' '' @
                       format_value repr
                         (case dict_get usr ''surname'' of Some v \<Rightarrow> v | None \<Rightarrow> JNull)))"
  by (simp add: create_payload_def assms Let_def dict_get_set split: option.split)


lemma example_tenant: "tenant_name example_user = ''contoso.onmicrosoft.com''"
  by (simp add: example_user_def init_def Let_def split: prod.splits)

lemma new_user_payload:
  "create_payload repr example_user new_user =
     Inr [(''extension_0a1b_Loyalty'', JStr ''gold''),
          (''displayName'', JStr ''Ada Lovelace''),
          (''mail'', JStr ''ada@example.org''),
          (''accountEnabled'', JBool True),
          (''passwordPolicies'', JStr ''DisablePasswordExpiration''),
          (''passwordProfile'',
             JObj [(''password'', JStr ''S3cret!pass''),
                   (''forceChangePasswordNextSignIn'', JBool False)]),
          (''identities'',
             JArr [JObj [(''issuer'', JStr ''contoso.onmicrosoft.com''),
                         (''issuerAssignedId'', JStr ''ada@example.org''),
                         (''signInType'', JStr ''emailAddress'')]])]"
  by (simp add: create_payload_def map_known_fields_def example_mapping example_tenant
      new_user_def dict_get_def Let_def)


lemma dict_get_filter:
  "dict_get (filter (\<lambda>(k, v). P k) d) k = (if P k then dict_get d k else None)"
  by (induction d) (auto simp: dict_get_def)

lemma map_known_fields_cong:
  assumes "\<forall>a \<in> set (dict_keys mapping). dict_get usr a = dict_get usr' a"
  shows "map_known_fields mapping usr = map_known_fields mapping usr'"
  unfolding map_known_fields_def
proof (rule fold_cong [OF refl refl])
  fix x assume "x \<in> set mapping"
  then have "fst x \<in> set (dict_keys mapping)" by (simp add: dict_keys_def)
  with assms have "dict_get usr (fst x) = dict_get usr' (fst x)" by blast
  then show "(case x of (attribute, mapped_attribute) \<Rightarrow> \<lambda>mapped.
               case dict_get usr attribute of
                 None \<Rightarrow> mapped | Some v \<Rightarrow> dict_set mapped mapped_attribute v) =
             (case x of (attribute, mapped_attribute) \<Rightarrow> \<lambda>mapped.
               case dict_get usr' attribute of
                 None \<Rightarrow> mapped | Some v \<Rightarrow> dict_set mapped mapped_attribute v)"
    by (cases x) simp
qed

lemma map_known_fields_filter:
  "set (dict_keys mapping) \<subseteq> S \<Longrightarrow>
   map_known_fields mapping (filter (\<lambda>(k, v). k \<in> S) usr) = map_known_fields mapping usr"
  by (rule map_known_fields_cong) (auto simp: dict_get_filter)

lemma create_payload_filter:
  "create_payload repr self
       (filter (\<lambda>(k, v). k \<in> set (dict_keys (userflow_attribute_mapping self)) \<union> set create_reads) usr) =
   create_payload repr self usr"
proof -
  let ?S = "set (dict_keys (userflow_attribute_mapping self)) \<union> set create_reads"
  let ?kept = "filter (\<lambda>(k, v). k \<in> ?S) usr"
  have known: "map_known_fields (userflow_attribute_mapping self) ?kept =
      map_known_fields (userflow_attribute_mapping self) usr"
    by (rule map_known_fields_filter) simp
  have "k \<in> set create_reads \<Longrightarrow> dict_get ?kept k = dict_get usr k" for k
    by (simp add: dict_get_filter)
  then have reads: "dict_get ?kept ''displayName'' = dict_get usr ''displayName''"
    "dict_get ?kept ''givenName'' = dict_get usr ''givenName''"
    "dict_get ?kept ''surname'' = dict_get usr ''surname''"
    "dict_get ?kept ''email'' = dict_get usr ''email''"
    "dict_get ?kept ''password'' = dict_get usr ''password''"
    by (simp_all add: create_reads_def)
  show ?thesis unfolding create_payload_def Let_def known reads by (rule refl)
qed

text \<open>
  C3, as the claim states it, fails: \<^verbatim>\<open>update\<close> with a record whose only key is
  unknown to the mapping sends its PATCH, with an empty payload, and reports success.
\<close>

theorem update_unknown_attribute_sent:
  "dict_get (userflow_attribute_mapping example_user) ''unknownfield'' = None \<and>
   update example_user accepting_server ''7d1c'' [(''unknownfield'', JStr ''x'')] =
     (Inr True, [Patch ''https://graph.microsoft.com/v1.0/users/7d1c'' (JObj [])])"
  by (simp add: example_mapping example_url update_def map_known_fields_def accepting_server_def
      dict_get_def Let_def)

text \<open>
  C3, amended: \<^verbatim>\<open>create\<close> and \<^verbatim>\<open>update\<close> look up in the record only the keys of
  the mapping (and \<^verbatim>\<open>create\<close> the five keys it reads by name), so that any other key
  of the record is ignored: removing those keys changes neither the result nor the
  request. \<^verbatim>\<open>update\<close> always issues exactly one PATCH, whose payload holds the known
  fields of the record; \<^verbatim>\<open>create\<close> issues exactly one POST whenever the record has
  an email and a password.
\<close>

theorem create_update_ignore_unknown:
  "snd (update self srv userid usr) =
     [Patch (api_url self @ ''/users/'' @ userid)
        (JObj (map_known_fields (userflow_attribute_mapping self) usr))] \<and>
   update self srv userid
       (filter (\<lambda>(k, v). k \<in> set (dict_keys (userflow_attribute_mapping self))) usr) =
     update self srv userid usr \<and>
   create repr self srv
       (filter (\<lambda>(k, v). k \<in> set (dict_keys (userflow_attribute_mapping self)) \<union> set create_reads) usr) =
     create repr self srv usr \<and>
   (dict_get usr ''email'' \<noteq> None \<and> dict_get usr ''password'' \<noteq> None \<longrightarrow>
      (\<exists>payload. snd (create repr self srv usr) = [Post (api_url self @ ''/users'') (JObj payload)]))"
proof -
  have a: "snd (update self srv userid usr) =
     [Patch (api_url self @ ''/users/'' @ userid)
        (JObj (map_known_fields (userflow_attribute_mapping self) usr))]"
    by (simp add: update_def Let_def split: sum.splits)
  have b: "update self srv userid
       (filter (\<lambda>(k, v). k \<in> set (dict_keys (userflow_attribute_mapping self))) usr) =
     update self srv userid usr"
    by (simp add: update_def map_known_fields_filter)
  have c: "create repr self srv
       (filter (\<lambda>(k, v). k \<in> set (dict_keys (userflow_attribute_mapping self)) \<union> set create_reads) usr) =
     create repr self srv usr"
    by (simp only: create_def create_payload_filter)
  have d: "dict_get usr ''email'' \<noteq> None \<and> dict_get usr ''password'' \<noteq> None \<Longrightarrow>
      \<exists>payload. snd (create repr self srv usr) = [Post (api_url self @ ''/users'') (JObj payload)]"
  proof -
    assume "dict_get usr ''email'' \<noteq> None \<and> dict_get usr ''password'' \<noteq> None"
    then obtain e p where "dict_get usr ''email'' = Some e" "dict_get usr ''password'' = Some p"
      by auto
    from create_payload_ok [OF this, of repr self] obtain payload
      where "create_payload repr self usr = Inr payload" by blast
    then have "snd (create repr self srv usr) = [Post (api_url self @ ''/users'') (JObj payload)]"
      by (simp add: create_def Let_def)
    then show ?thesis by blast
  qed
  from a b c d show ?thesis by blast
qed

theorem create_update_ignore_unknown_witness:
  "dict_get new_user ''email'' \<noteq> None \<and> dict_get new_user ''password'' \<noteq> None \<and>
   dict_get (userflow_attribute_mapping example_user) ''unknownfield'' = None \<and>
   dict_get new_user ''unknownfield'' = Some (JStr ''x'') \<and>
   snd (update example_user accepting_server ''7d1c'' new_user) =
     [Patch ''https://graph.microsoft.com/v1.0/users/7d1c''
        (JObj [(''extension_0a1b_Loyalty'', JStr ''gold'')])] \<and>
   (\<exists>payload. snd (create (\<lambda>v. []) example_user accepting_server new_user) =
      [Post ''https://graph.microsoft.com/v1.0/users'' (JObj payload)])"
proof -
  have h: "dict_get new_user ''email'' \<noteq> None \<and> dict_get new_user ''password'' \<noteq> None"
    by (simp add: new_user_def dict_get_def)
  have m: "map_known_fields (userflow_attribute_mapping example_user) new_user =
      [(''extension_0a1b_Loyalty'', JStr ''gold'')]"
    by (simp add: map_known_fields_def example_mapping new_user_def dict_get_def)
  have u: "dict_get new_user ''unknownfield'' = Some (JStr ''x'')"
    by (simp add: new_user_def dict_get_def)
  from create_update_ignore_unknown [of example_user accepting_server "''7d1c''" new_user "\<lambda>v. []"] h m u
  show ?thesis
    by (simp add: example_url example_mapping dict_get_def)
qed

section \<open>Remapping the records of a list\<close>

lemma remap_items_no_key_error:
  "remap_items custom reversed items acc = Inr out \<Longrightarrow>
   a \<in> set (dict_keys items) \<Longrightarrow> a \<in> set custom \<Longrightarrow> dict_get reversed a \<noteq> None"
  by (induction items arbitrary: acc) (fastforce simp: dict_keys_def split: if_splits option.splits)+

lemma remap_items_distinct:
  "\<forall>a \<in> set (dict_keys items). a \<in> set custom \<longrightarrow> dict_get reversed a \<noteq> None \<Longrightarrow>
   distinct (dict_keys acc @ map (output_key custom reversed) (dict_keys items)) \<Longrightarrow>
   remap_items custom reversed items acc =
     Inr (acc @ map (\<lambda>(a, v). (output_key custom reversed a, v)) items)"
proof (induction items arbitrary: acc)
  case Nil
  show ?case by simp
next
  case (Cons x items)
  obtain a v where x: "x = (a, v)" by (cases x)
  let ?k = "output_key custom reversed a"
  from Cons.prems(2) x have new: "?k \<notin> set (dict_keys acc)" by (auto simp: dict_keys_def)
  from Cons.prems(1) have ok: "\<forall>a \<in> set (dict_keys items). a \<in> set custom \<longrightarrow> dict_get reversed a \<noteq> None"
    by (simp add: dict_keys_def)
  from Cons.prems(2) x
  have dist: "distinct (dict_keys (acc @ [(?k, v)]) @ map (output_key custom reversed) (dict_keys items))"
    by (auto simp: dict_keys_def)
  have step: "remap_items custom reversed (x # items) acc =
      remap_items custom reversed items (dict_set acc ?k v)"
    using Cons.prems(1) by (auto simp: x output_key_def dict_keys_def split: option.splits)
  show ?case
    unfolding step dict_set_new [OF new] Cons.IH [OF ok dist] by (simp add: x)
qed

text \<open>Without any condition on the keys: the value under a key of the result is the
  value of the last item stored under it, and the keys of the result are the keys under
  which the items are stored.\<close>

lemma remap_items_last_wins:
  "remap_items custom reversed items acc = Inr out \<Longrightarrow>
   dict_get out k =
     (case map_of (rev (map (\<lambda>(a, v). (output_key custom reversed a, v)) items)) k of
        Some v \<Rightarrow> Some v
      | None \<Rightarrow> dict_get acc k)"
proof (induction items arbitrary: acc)
  case Nil
  then show ?case by simp
next
  case (Cons x items)
  obtain a v where x: "x = (a, v)" by (cases x)
  let ?k = "output_key custom reversed a"
  from Cons.prems x have run: "remap_items custom reversed items (dict_set acc ?k v) = Inr out"
    by (auto simp: output_key_def split: if_splits option.splits)
  from Cons.IH [OF run] show ?case
    by (simp add: x dict_get_set map_add_def split: option.splits)
qed

lemma remap_items_keys:
  "remap_items custom reversed items acc = Inr out \<Longrightarrow>
   set (dict_keys out) = set (dict_keys acc) \<union> output_key custom reversed ` set (dict_keys items)"
proof (induction items arbitrary: acc)
  case Nil
  then show ?case by (simp add: dict_keys_def)
next
  case (Cons x items)
  obtain a v where x: "x = (a, v)" by (cases x)
  let ?k = "output_key custom reversed a"
  from Cons.prems x have run: "remap_items custom reversed items (dict_set acc ?k v) = Inr out"
    by (auto simp: output_key_def split: if_splits option.splits)
  have "set (dict_keys (dict_set acc ?k v)) = insert ?k (set (dict_keys acc))"
    by (auto simp: dict_keys_set)
  with Cons.IH [OF run] show ?case by (auto simp: x dict_keys_def)
qed

lemma remap_distinct_keys:
  assumes "remap_customer custom reversed (JObj items) = Inr out"
    and "distinct (map (output_key custom reversed) (dict_keys items))"
  shows "out = map (\<lambda>(a, v). (output_key custom reversed a, v)) items \<and>
         map snd out = map snd items \<and>
         (\<forall>a \<in> set (dict_keys items). a \<notin> set custom \<longrightarrow> dict_get out a = dict_get items a)"
proof -
  from assms(1) have run: "remap_items custom reversed items [] = Inr out" by simp
  have ok: "\<forall>a \<in> set (dict_keys items). a \<in> set custom \<longrightarrow> dict_get reversed a \<noteq> None"
    using remap_items_no_key_error [OF run] by blast
  from assms(2) have "distinct (dict_keys [] @ map (output_key custom reversed) (dict_keys items))"
    by (simp add: dict_keys_def)
  from remap_items_distinct [OF ok this] run
  have out: "out = map (\<lambda>(a, v). (output_key custom reversed a, v)) items" by simp
  have vals: "map snd out = map snd items" unfolding out by (simp add: case_prod_unfold comp_def)
  have keep: "dict_get out a = dict_get items a" if a: "a \<in> set (dict_keys items)" "a \<notin> set custom" for a
  proof -
    from a(1) obtain v where av: "(a, v) \<in> set items" by (auto simp: dict_keys_def)
    from assms(2) have "distinct (dict_keys items)" by (simp add: distinct_map)
    then have di: "distinct (map fst items)" by (simp add: dict_keys_def)
    from av di have "dict_get items a = Some v" by (simp add: dict_get_def)
    moreover
    from av a(2) have "(a, v) \<in> set out" unfolding out by (force simp: output_key_def)
    moreover from assms(2) have "distinct (map fst out)"
      unfolding out by (simp add: dict_keys_def comp_def case_prod_unfold)
    ultimately show ?thesis by (simp add: dict_get_def)
  qed
  from out vals keep show ?thesis by blast
qed

text \<open>
  C10, amended: when the remapping of a record raises nothing, the keys of the result are
  the keys under which the items of the record are stored (the display name for a key of
  the custom list, the key itself otherwise), and the value under such a key is the value
  of the last item stored under it: a later item overwrites an earlier one with the same
  key. When those keys are pairwise distinct, the result is the record's items in their
  order, each under that key and with its value; so every value is kept, a key that is
  not in the custom list is kept with its value, and no other key appears.
\<close>

theorem remap_keeps_other_keys:
  assumes "remap_customer custom reversed (JObj items) = Inr out"
  shows "set (dict_keys out) = output_key custom reversed ` set (dict_keys items) \<and>
         (\<forall>pre a v post.
            items = pre @ (a, v) # post \<and>
            output_key custom reversed a \<notin> output_key custom reversed ` set (dict_keys post) \<longrightarrow>
            dict_get out (output_key custom reversed a) = Some v) \<and>
         (distinct (map (output_key custom reversed) (dict_keys items)) \<longrightarrow>
            out = map (\<lambda>(a, v). (output_key custom reversed a, v)) items \<and>
            map snd out = map snd items \<and>
            (\<forall>a \<in> set (dict_keys items).
               a \<notin> set custom \<longrightarrow> dict_get out a = dict_get items a))"
proof -
  let ?key = "output_key custom reversed"
  from assms have run: "remap_items custom reversed items [] = Inr out" by simp
  have ks: "set (dict_keys out) = ?key ` set (dict_keys items)"
    using remap_items_keys [OF run] by (simp add: dict_keys_def)
  have last: "dict_get out (?key a) = Some v"
    if split: "items = pre @ (a, v) # post" and later: "?key a \<notin> ?key ` set (dict_keys post)"
    for pre a v post
  proof -
    let ?ren = "map (\<lambda>(a, v). (?key a, v))"
    have "fst ` set (rev (?ren post)) = ?key ` set (dict_keys post)"
      by (force simp: dict_keys_def)
    with later have none: "map_of (rev (?ren post)) (?key a) = None"
      by (simp only: map_of_eq_None_iff) simp
    have "rev (?ren items) = rev (?ren post) @ (?key a, v) # rev (?ren pre)"
      by (simp add: split)
    then have "map_of (rev (?ren items)) (?key a) = Some v"
      using none by (simp add: map_add_def)
    with remap_items_last_wins [OF run, of "?key a"] show ?thesis by simp
  qed
  have dist: "out = map (\<lambda>(a, v). (?key a, v)) items \<and> map snd out = map snd items \<and>
      (\<forall>a \<in> set (dict_keys items). a \<notin> set custom \<longrightarrow> dict_get out a = dict_get items a)"
    if "distinct (map ?key (dict_keys items))"
    by (rule remap_distinct_keys [OF assms that])
  from ks last dist show ?thesis by blast
qed

lemma ascii_lower_Mail: "ascii_lower ''Mail'' = ''mail''"
  by code_simp

lemma example_reversed:
  "reversed_mapping (userflow_attribute_mapping example_user) =
     [(''city'', ''city''), (''extension_0a1b_Loyalty'', ''loyalty'')]"
  by (simp add: example_mapping reversed_mapping_def)

text \<open>
  C10, as the claim states it, fails: \<open>mail\<close> is not a custom attribute, yet the record
  comes back with the value of the custom attribute displayed as \<open>Mail\<close> under that key,
  and the value it had is gone.
\<close>

theorem remap_overwrites_plain_key:
  "''mail'' \<notin> set (snd (init ascii_lower [] ''contoso.onmicrosoft.com'' ''https://graph.microsoft.com/v1.0''
                           schema_mail)) \<and>
   remap_customer
     (snd (init ascii_lower [] ''contoso.onmicrosoft.com'' ''https://graph.microsoft.com/v1.0'' schema_mail))
     (reversed_mapping (userflow_attribute_mapping
        (fst (init ascii_lower [] ''contoso.onmicrosoft.com'' ''https://graph.microsoft.com/v1.0''
                schema_mail))))
     (JObj [(''mail'', JStr ''ada@example.org''),
            (''extension_0a1b_Mail'', JStr ''lovelace@example.org'')]) =
   Inr [(''mail'', JStr ''lovelace@example.org'')]"
  by (simp add: init_mapping init_custom schema_mail_def ascii_lower_Mail reversed_mapping_def
      dict_get_def Let_def)

theorem remap_keeps_other_keys_witness:
  "remap_customer [''extension_0a1b_Loyalty'']
       (reversed_mapping (userflow_attribute_mapping example_user))
       (JObj [(''id'', JStr ''7d1c''), (''extension_0a1b_Loyalty'', JStr ''gold'')]) =
     Inr [(''id'', JStr ''7d1c''), (''loyalty'', JStr ''gold'')] \<and>
   distinct (map (output_key [''extension_0a1b_Loyalty'']
                    (reversed_mapping (userflow_attribute_mapping example_user)))
               (dict_keys [(''id'', JStr ''7d1c''), (''extension_0a1b_Loyalty'', JStr ''gold'')]))"
proof -
  let ?custom = "[''extension_0a1b_Loyalty'']"
  let ?items = "[(''id'', JStr ''7d1c''), (''extension_0a1b_Loyalty'', JStr ''gold'')]"
  have h1: "remap_customer ?custom (reversed_mapping (userflow_attribute_mapping example_user))
      (JObj ?items) = Inr [(''id'', JStr ''7d1c''), (''loyalty'', JStr ''gold'')]"
    by (simp add: example_reversed dict_get_def)
  have h2: "distinct (map (output_key ?custom
      (reversed_mapping (userflow_attribute_mapping example_user))) (dict_keys ?items))"
    by (simp add: example_reversed output_key_def dict_keys_def dict_get_def)
  from remap_keeps_other_keys [OF h1] h1 h2 show ?thesis by simp
qed

text \<open>Every id that the mapping maps to has a name in the reversed mapping, which the
  mapping maps back to the id.\<close>

lemma reversed_mapping_snoc:
  "reversed_mapping (xs @ [(k, v)]) = dict_set (reversed_mapping xs) v k"
  by (simp add: reversed_mapping_def)

lemma reversed_lookup:
  "distinct (dict_keys mapping) \<Longrightarrow> i \<in> snd ` set mapping \<Longrightarrow>
   \<exists>n. dict_get (reversed_mapping mapping) i = Some n \<and> dict_get mapping n = Some i"
proof (induction mapping rule: rev_induct)
  case Nil
  then show ?case by simp
next
  case (snoc x xs)
  obtain k v where x: "x = (k, v)" by (cases x)
  from snoc.prems(1) x have dxs: "distinct (dict_keys xs)" and new: "k \<notin> set (dict_keys xs)"
    by (simp_all add: dict_keys_def)
  show ?case
  proof (cases "i = v")
    case True
    from new have "map_of xs k = None"
      by (simp add: dict_keys_def map_of_eq_None_iff)
    then have "dict_get (xs @ [(k, v)]) k = Some v"
      by (simp add: dict_get_def map_add_def)
    with True show ?thesis by (simp add: x reversed_mapping_snoc dict_get_set)
  next
    case False
    with snoc.prems(2) x have "i \<in> snd ` set xs" by auto
    from snoc.IH [OF dxs this] obtain n where
      n: "dict_get (reversed_mapping xs) i = Some n" "dict_get xs n = Some i" by blast
    from n(2) have "dict_get (xs @ [(k, v)]) n = Some i"
      by (simp add: dict_get_def map_add_def)
    with n(1) False show ?thesis by (simp add: x reversed_mapping_snoc dict_get_set)
  qed
qed

lemma dict_get_Some_iff:
  "distinct (dict_keys d) \<Longrightarrow> dict_get d k = Some v \<longleftrightarrow> (k, v) \<in> set d"
  by (simp add: dict_get_def dict_keys_def)

lemma known_fields_sound:
  "dict_get (fold (\<lambda>(attribute, mapped_attribute) mapped.
                     case dict_get usr attribute of
                       Some v \<Rightarrow> dict_set mapped mapped_attribute v
                     | None \<Rightarrow> mapped) xs acc) i = Some v \<Longrightarrow>
   dict_get acc i = Some v \<or> (\<exists>a. (a, i) \<in> set xs \<and> dict_get usr a = Some v)"
proof (induction xs arbitrary: acc)
  case Nil
  then show ?case by simp
next
  case (Cons x xs)
  obtain a m where x: "x = (a, m)" by (cases x)
  show ?case
  proof (cases "dict_get usr a")
    case None
    with Cons.prems x have "dict_get (fold (\<lambda>(attribute, mapped_attribute) mapped.
                     case dict_get usr attribute of
                       Some v \<Rightarrow> dict_set mapped mapped_attribute v
                     | None \<Rightarrow> mapped) xs acc) i = Some v" by simp
    from Cons.IH [OF this] show ?thesis by auto
  next
    case (Some w)
    with Cons.prems x have "dict_get (fold (\<lambda>(attribute, mapped_attribute) mapped.
                     case dict_get usr attribute of
                       Some v \<Rightarrow> dict_set mapped mapped_attribute v
                     | None \<Rightarrow> mapped) xs (dict_set acc m w)) i = Some v" by simp
    from Cons.IH [OF this] Some x show ?thesis
      by (auto simp: dict_get_set split: if_splits)
  qed
qed

lemma known_fields_complete:
  "dict_get acc i \<noteq> None \<or> (\<exists>a v. (a, i) \<in> set xs \<and> dict_get usr a = Some v) \<Longrightarrow>
   dict_get (fold (\<lambda>(attribute, mapped_attribute) mapped.
                     case dict_get usr attribute of
                       Some v \<Rightarrow> dict_set mapped mapped_attribute v
                     | None \<Rightarrow> mapped) xs acc) i \<noteq> None"
proof (induction xs arbitrary: acc)
  case Nil
  then show ?case by simp
next
  case (Cons x xs)
  obtain a m where x: "x = (a, m)" by (cases x)
  show ?case
  proof (cases "dict_get usr a")
    case None
    with Cons.prems x
    have "dict_get acc i \<noteq> None \<or> (\<exists>a v. (a, i) \<in> set xs \<and> dict_get usr a = Some v)"
      by auto
    from Cons.IH [OF this] None x show ?thesis by simp
  next
    case (Some w)
    with Cons.prems x
    have "dict_get (dict_set acc m w) i \<noteq> None \<or>
        (\<exists>a v. (a, i) \<in> set xs \<and> dict_get usr a = Some v)"
      by (auto simp: dict_get_set)
    from Cons.IH [OF this] Some x show ?thesis by simp
  qed
qed

lemma dict_get_Nil: "dict_get [] k = None"
  by (simp add: dict_get_def)

lemma round_trip:
  assumes dm: "distinct (dict_keys mapping)"
    and dc: "distinct (dict_keys customer)"
    and ks: "\<forall>a \<in> set (dict_keys customer). a \<in> set custom \<and> a \<in> snd ` set mapping"
  shows "\<exists>out. remap_customer custom (reversed_mapping mapping) (JObj customer) = Inr out \<and>
     map snd out = map snd customer \<and>
     map (\<lambda>(name, v). (dict_get mapping name, v)) out = map (\<lambda>(a, v). (Some a, v)) customer \<and>
     (\<forall>a. dict_get (map_known_fields mapping out) a = dict_get customer a)"
proof -
  let ?R = "reversed_mapping mapping"
  let ?key = "output_key custom ?R"
  let ?out = "map (\<lambda>(a, v). (?key a, v)) customer"
  have lookup: "dict_get ?R a \<noteq> None \<and> dict_get mapping (?key a) = Some a"
    if "a \<in> set (dict_keys customer)" for a
  proof -
    from ks that have c: "a \<in> set custom" and r: "a \<in> snd ` set mapping" by auto
    from reversed_lookup [OF dm r] obtain n where
      n: "dict_get ?R a = Some n" "dict_get mapping n = Some a" by blast
    from c n(1) have "?key a = n" by (simp add: output_key_def)
    with n show ?thesis by simp
  qed
  have "inj_on ?key (set (dict_keys customer))"
  proof (rule inj_onI)
    fix a b
    assume a: "a \<in> set (dict_keys customer)" and b: "b \<in> set (dict_keys customer)"
      and eq: "?key a = ?key b"
    from lookup [OF a] have "Some a = dict_get mapping (?key a)" by simp
    also have "\<dots> = dict_get mapping (?key b)" by (simp only: eq)
    also from lookup [OF b] have "\<dots> = Some b" by simp
    finally show "a = b" by simp
  qed
  with dc have dk: "distinct (map ?key (dict_keys customer))" by (simp add: distinct_map)
  then have d0: "distinct (dict_keys [] @ map ?key (dict_keys customer))"
    by (simp add: dict_keys_def)
  from lookup have ok: "\<forall>a \<in> set (dict_keys customer). a \<in> set custom \<longrightarrow> dict_get ?R a \<noteq> None"
    by blast
  have run: "remap_customer custom ?R (JObj customer) = Inr ?out"
    using remap_items_distinct [OF ok d0] by simp
  have vals: "map snd ?out = map snd customer" by (simp add: case_prod_unfold comp_def)
  have "map (\<lambda>(name, v). (dict_get mapping name, v)) ?out =
      map (\<lambda>(a, v). (dict_get mapping (?key a), v)) customer"
    by (simp add: case_prod_unfold comp_def)
  also have "\<dots> = map (\<lambda>(a, v). (Some a, v)) customer"
  proof (rule map_cong [OF refl])
    fix x assume "x \<in> set customer"
    then have "fst x \<in> set (dict_keys customer)" by (simp add: dict_keys_def)
    from lookup [OF this]
    show "(case x of (a, v) \<Rightarrow> (dict_get mapping (?key a), v)) = (case x of (a, v) \<Rightarrow> (Some a, v))"
      by (simp add: case_prod_unfold)
  qed
  finally have names: "map (\<lambda>(name, v). (dict_get mapping name, v)) ?out =
      map (\<lambda>(a, v). (Some a, v)) customer" .
  have "dict_keys ?out = map ?key (dict_keys customer)"
    by (simp add: dict_keys_def comp_def case_prod_unfold)
  with dk have dout: "distinct (dict_keys ?out)" by simp
  have forth: "(a, v) \<in> set customer" if "dict_get (map_known_fields mapping ?out) a = Some v" for a v
  proof -
    from known_fields_sound [OF that [unfolded map_known_fields_def]]
    obtain n where n: "(n, a) \<in> set mapping" "dict_get ?out n = Some v"
      by (auto simp: dict_get_Nil)
    from n(2) have "(n, v) \<in> set ?out" by (simp only: dict_get_Some_iff [OF dout])
    then obtain b where b: "(b, v) \<in> set customer" "n = ?key b" by auto
    from b(1) have "fst (b, v) \<in> fst ` set customer" by (rule imageI)
    then have "b \<in> set (dict_keys customer)" by (simp add: dict_keys_def)
    from lookup [OF this] b(2) have "dict_get mapping n = Some b" by simp
    moreover from n(1) have "dict_get mapping n = Some a" by (simp only: dict_get_Some_iff [OF dm])
    ultimately have "b = a" by simp
    with b(1) show ?thesis by simp
  qed
  have there: "dict_get (map_known_fields mapping ?out) a \<noteq> None" if "(a, v) \<in> set customer" for a v
  proof -
    from that have "fst (a, v) \<in> fst ` set customer" by (rule imageI)
    then have ka: "a \<in> set (dict_keys customer)" by (simp add: dict_keys_def)
    from lookup [OF ka] have "dict_get mapping (?key a) = Some a" by simp
    then have m: "(?key a, a) \<in> set mapping" by (simp only: dict_get_Some_iff [OF dm])
    from that have "(?key a, v) \<in> (\<lambda>(a, v). (?key a, v)) ` set customer"
      by (rule rev_image_eqI) simp
    then have "(?key a, v) \<in> set ?out" by (simp only: set_map)
    then have o: "dict_get ?out (?key a) = Some v" by (simp only: dict_get_Some_iff [OF dout])
    from m o have "dict_get [] a \<noteq> None \<or> (\<exists>n w. (n, a) \<in> set mapping \<and> dict_get ?out n = Some w)"
      by blast
    from known_fields_complete [OF this] show ?thesis unfolding map_known_fields_def .
  qed
  have trip: "dict_get (map_known_fields mapping ?out) a = dict_get customer a" for a
  proof (cases "dict_get customer a")
    case None
    show ?thesis
    proof (cases "dict_get (map_known_fields mapping ?out) a")
      case (Some v)
      from forth [OF this] have "dict_get customer a = Some v"
        by (simp only: dict_get_Some_iff [OF dc])
      with None show ?thesis by simp
    qed (simp add: None)
  next
    case (Some v)
    then have av: "(a, v) \<in> set customer" by (simp only: dict_get_Some_iff [OF dc])
    from there [OF this] obtain w where w: "dict_get (map_known_fields mapping ?out) a = Some w"
      by auto
    from forth [OF this] have "dict_get customer a = Some w"
      by (simp only: dict_get_Some_iff [OF dc])
    with Some w show ?thesis by simp
  qed
  from run vals names trip show ?thesis by blast
qed

text \<open>
  C8: a record with distinct keys, all of them in the custom list and all of them ids that
  the mapping of a constructed client maps to, is remapped without error to a record
  with the same values in the same order, whose keys are names that the mapping maps to
  the original ids; and translating that record forward, as \<^verbatim>\<open>update\<close> does, gives
  back a dictionary equal to the original. The mapping need not be injective for this.
\<close>

theorem remap_round_trip:
  assumes "distinct (dict_keys customer)"
    and "\<forall>a \<in> set (dict_keys customer).
           a \<in> set custom' \<and>
           a \<in> snd ` set (userflow_attribute_mapping (fst (init lower custom tenant url schema)))"
  shows "\<exists>out.
     remap_customer custom'
         (reversed_mapping (userflow_attribute_mapping (fst (init lower custom tenant url schema))))
         (JObj customer) = Inr out \<and>
     map snd out = map snd customer \<and>
     map (\<lambda>(name, v).
            (dict_get (userflow_attribute_mapping (fst (init lower custom tenant url schema))) name, v))
         out
       = map (\<lambda>(a, v). (Some a, v)) customer \<and>
     (\<forall>a. dict_get (map_known_fields
                       (userflow_attribute_mapping (fst (init lower custom tenant url schema))) out) a
            = dict_get customer a)"
  by (rule round_trip [OF init_distinct assms])

theorem remap_round_trip_witness:
  "distinct (dict_keys [(''extension_0a1b_Loyalty'', JStr ''gold'')]) \<and>
   ''extension_0a1b_Loyalty'' \<in> snd ` set (userflow_attribute_mapping example_user) \<and>
   remap_customer [''extension_0a1b_Loyalty'']
       (reversed_mapping (userflow_attribute_mapping example_user))
       (JObj [(''extension_0a1b_Loyalty'', JStr ''gold'')]) = Inr [(''loyalty'', JStr ''gold'')] \<and>
   dict_get (userflow_attribute_mapping example_user) ''loyalty'' = Some ''extension_0a1b_Loyalty'' \<and>
   map_known_fields (userflow_attribute_mapping example_user) [(''loyalty'', JStr ''gold'')] =
     [(''extension_0a1b_Loyalty'', JStr ''gold'')]"
proof -
  let ?customer = "[(''extension_0a1b_Loyalty'', JStr ''gold'')]"
  have h1: "distinct (dict_keys ?customer)" by (simp add: dict_keys_def)
  have h2: "\<forall>a \<in> set (dict_keys ?customer).
      a \<in> set [''extension_0a1b_Loyalty''] \<and>
      a \<in> snd ` set (userflow_attribute_mapping
        (fst (init ascii_lower [] ''contoso.onmicrosoft.com'' ''https://graph.microsoft.com/v1.0'' schema_two)))"
    using example_mapping by (simp add: dict_keys_def example_user_def)
  have run: "remap_customer [''extension_0a1b_Loyalty'']
       (reversed_mapping (userflow_attribute_mapping example_user))
       (JObj ?customer) = Inr [(''loyalty'', JStr ''gold'')]"
    by (simp add: example_reversed dict_get_def)
  have fwd: "map_known_fields (userflow_attribute_mapping example_user) [(''loyalty'', JStr ''gold'')] =
     ?customer"
    by (simp add: map_known_fields_def example_mapping dict_get_def)
  from remap_round_trip [OF h1 h2] h1 run fwd show ?thesis
    by (simp add: example_mapping dict_get_def)
qed

end
